theory Spec2Isabelle
  imports Main "HOL-Library.Word"
begin

section \<open>Data model of xrectsel.c\<close>

text \<open>
  C \<open>int\<close> and \<open>unsigned int\<close> are 32-bit machine integers. Both are modelled as
  \<open>32 word\<close>: an \<open>unsigned int\<close> is read with \<open>unat\<close>/\<open>uint\<close>, an \<open>int\<close> with
  \<open>sint\<close> (two's complement) and compared with \<open><s\<close>. Arithmetic wraps around.
\<close>

type_synonym cint = "32 word"
type_synonym cuint = "32 word"

text \<open>\<open>struct Region\<close>; the fields \<open>x\<close>, \<open>y\<close>, \<open>X\<close>, \<open>Y\<close> are \<open>int\<close>, the others \<open>unsigned int\<close>.\<close>

record Region =
  root :: nat
  x :: cint
  y :: cint
  X :: cint
  Y :: cint
  w :: cuint
  h :: cuint
  b :: cuint
  d :: cuint

section \<open>The format renderer\<close>

subsection \<open>Output of numbers\<close>

definition digit_char :: "nat \<Rightarrow> char" where
  "digit_char n = char_of (48 + n)"

text \<open>Plain base-10 digits of a natural number, as \<open>printf\<close> writes them.\<close>

fun dec_digits :: "nat \<Rightarrow> string" where
  "dec_digits n =
     (if n < 10 then [digit_char n]
      else dec_digits (n div 10) @ [digit_char (n mod 10)])"

declare dec_digits.simps [simp del]

text \<open>\<open>printf("%u", value)\<close>\<close>

definition printf_u :: "cuint \<Rightarrow> string" where
  "printf_u value = dec_digits (unat value)"

text \<open>\<open>printf("%i", value)\<close>: a leading minus sign for negative values, no plus sign.\<close>

definition printf_i :: "cint \<Rightarrow> string" where
  "printf_i value =
     (if sint value < 0 then CHR ''-'' # dec_digits (nat (- sint value))
      else dec_digits (nat (sint value)))"

subsection \<open>Rounding\<close>

text \<open>
  The macro \<open>ROUND(value, rounding)\<close>:
  \<open>if (rounding > 0) value = (value / rounding) * rounding\<close>.
  \<open>rounding\<close> is always an \<open>unsigned int\<close>. In \<open>round_and_printu\<close> the value is an
  \<open>unsigned int\<close> too. In \<open>round_and_printi\<close> the value is an \<open>int\<close>, and C's usual
  arithmetic conversions turn it into an \<open>unsigned int\<close> before dividing; the product is
  converted back to \<open>int\<close> by the assignment. On words that is the same unsigned
  division and wrapping multiplication in both cases: \<open>div\<close> on \<open>32 word\<close> divides the
  unsigned readings.
\<close>

definition ROUND :: "32 word \<Rightarrow> cuint \<Rightarrow> 32 word" where
  "ROUND value rounding = (if rounding > 0 then (value div rounding) * rounding else value)"

definition round_and_printu :: "cuint \<Rightarrow> cuint \<Rightarrow> string" where
  "round_and_printu value rounding = printf_u (ROUND value rounding)"

definition round_and_printi :: "cint \<Rightarrow> cuint \<Rightarrow> string" where
  "round_and_printi value rounding = printf_i (ROUND value rounding)"

subsection \<open>Errors and pointers into the format string\<close>

text \<open>
  The two \<open>die\<close> calls of \<open>read_uint_until\<close> each carry the character they print.
  \<open>Read_Past_End\<close> is not an error the program reports: it marks a read through a
  pointer that has left the buffer holding the format string.
\<close>

datatype error =
  No_Matching char
| Unexpected_Character char
| Read_Past_End

text \<open>What \<open>die\<close> writes to standard error: the prefix of \<open>error\<close> and the message.\<close>

fun stderr_text :: "error \<Rightarrow> string" where
  "stderr_text (No_Matching c) = ''xrectsel: '' @ ''No matching '' @ [c] @ '' found''"
| "stderr_text (Unexpected_Character c) =
     ''xrectsel: '' @ ''Unexpected character '' @ [c] @ [CHR 0x0A]"
| "stderr_text Read_Past_End = []"

abbreviation NUL :: char where
  "NUL \<equiv> CHR 0x00"

text \<open>
  A \<open>const char *\<close> that only moves forwards is modelled by the bytes of the buffer from
  the pointer to the end of the buffer. \<open>++s\<close> is \<open>tl\<close>, and \<open>*s\<close> is the first
  byte; when no byte is left the pointer is outside the buffer and the read has no
  defined value.
\<close>

definition deref :: "char list \<Rightarrow> char option" where
  "deref s = (case s of [] \<Rightarrow> None | c # _ \<Rightarrow> Some c)"

text \<open>The buffer holding a C string: its characters and the terminating NUL.\<close>

definition c_str :: "string \<Rightarrow> char list" where
  "c_str fmt = fmt @ [NUL]"

subsection \<open>\<open>read_uint_until\<close>\<close>

text \<open>
  The loop \<open>while ((*(++s)) != stop_character)\<close>. The argument \<open>s\<close> is the pointer
  before the increment. The comparison \<open>c < '0' || c > '9'\<close> is on the character
  code; a byte above 127 fails it whether \<open>char\<close> is signed or not.
  The result is the value and the pointer stored back through \<open>str_ptr\<close>, which points
  at the stop character.
\<close>

fun read_uint_loop :: "char list \<Rightarrow> char \<Rightarrow> cuint \<Rightarrow> error + (cuint \<times> char list)" where
  "read_uint_loop [] stop_character value = Inl Read_Past_End"
| "read_uint_loop (c0 # s) stop_character value =
     (case deref s of
        None \<Rightarrow> Inl Read_Past_End
      | Some c \<Rightarrow>
          if c = stop_character then Inr (value, s)
          else if c = NUL then Inl (No_Matching stop_character)
          else if (of_char c :: nat) < of_char CHR ''0'' \<or> (of_char c :: nat) > of_char CHR ''9''
            then Inl (Unexpected_Character c)
          else
            let num = (of_char c :: nat) - of_char CHR ''0'';
                value1 = (if value \<noteq> 0 then value * 10 else value);
                value2 = value1 + of_nat num
            in read_uint_loop s stop_character value2)"

definition read_uint_until :: "char list \<Rightarrow> char \<Rightarrow> error + (cuint \<times> char list)" where
  "read_uint_until s stop_character = read_uint_loop s stop_character 0"

subsection \<open>\<open>print_region_attr\<close>\<close>

text \<open>
  A run of the renderer either returns (\<open>Finished\<close>) or stops at the point of a
  \<open>die\<close> or of a read outside the buffer (\<open>Aborted\<close>). Both carry what has been
  written to standard output up to then: \<open>putchar\<close> and \<open>printf\<close> write as the scan
  proceeds, and \<open>exit\<close> flushes the stream.
\<close>

datatype run = Finished string | Aborted string error

text \<open>The \<open>switch (*s)\<close> of \<open>print_region_attr\<close>; a character with no case writes nothing.\<close>

definition print_attr :: "Region \<Rightarrow> char \<Rightarrow> cuint \<Rightarrow> string" where
  "print_attr region sel rounding =
     (if sel = CHR ''%'' then [CHR ''%'']
      else if sel = CHR ''x'' then round_and_printi (x region) rounding
      else if sel = CHR ''y'' then round_and_printi (y region) rounding
      else if sel = CHR ''X'' then round_and_printi (X region) rounding
      else if sel = CHR ''Y'' then round_and_printi (Y region) rounding
      else if sel = CHR ''w'' then round_and_printu (w region) rounding
      else if sel = CHR ''h'' then round_and_printu (h region) rounding
      else if sel = CHR ''b'' then round_and_printu (b region) rounding
      else if sel = CHR ''d'' then round_and_printu (d region) rounding
      else [])"

text \<open>
  The statements between \<open>++s\<close> and the \<open>switch\<close>:
  \<open>if (*s == '[') { rounding = read_uint_until(&s, ']'); ++s; }\<close>,
  with \<open>rounding = 0\<close> from the head of the loop body. The argument is the pointer
  after the \<open>++s\<close> that follows the percent sign.
\<close>

definition read_rounding :: "char list \<Rightarrow> error + (cuint \<times> char list)" where
  "read_rounding s =
     (case deref s of
        None \<Rightarrow> Inl Read_Past_End
      | Some c \<Rightarrow>
          if c = CHR ''['' then
            (case read_uint_until s CHR '']'' of
               Inl e \<Rightarrow> Inl e
             | Inr (rounding, s') \<Rightarrow> Inr (rounding, tl s'))
          else Inr (0, s))"

text \<open>Both functions return a pointer further on in the buffer.\<close>

lemma read_uint_loop_length:
  "read_uint_loop s stop v = Inr (r, s') \<Longrightarrow> length s' < length s"
proof (induction s arbitrary: v)
  case Nil
  then show ?case by simp
next
  case (Cons c0 s)
  show ?case
  proof (cases s)
    case Nil
    with Cons.prems show ?thesis by (simp add: deref_def)
  next
    case (Cons c s1)
    show ?thesis
    proof (cases "c = stop")
      case True
      with Cons.prems \<open>s = c # s1\<close> show ?thesis by (simp add: deref_def)
    next
      case False
      with Cons.prems \<open>s = c # s1\<close> obtain v' where "read_uint_loop s stop v' = Inr (r, s')"
        by (simp add: deref_def Let_def split: if_splits)
      from Cons.IH [OF this] show ?thesis by simp
    qed
  qed
qed

declare read_uint_loop.simps [simp del]

lemma read_rounding_length:
  assumes "read_rounding s = Inr (r, s')"
  shows "length s' \<le> length s"
proof (cases "deref s = Some CHR ''[''")
  case True
  with assms obtain s2 where s2: "read_uint_loop s CHR '']'' 0 = Inr (r, s2)" and "s' = tl s2"
    by (auto simp: read_rounding_def read_uint_until_def split: sum.splits)
  with read_uint_loop_length [OF s2] show ?thesis by simp
next
  case False
  with assms show ?thesis
    by (auto simp: read_rounding_def split: option.splits if_splits)
qed

text \<open>
  The loop \<open>for (s = fmt; *s; ++s)\<close>, with the text written so far as an accumulator.
  The pointer moves forwards in every round, which is why the loop ends.
\<close>

function print_loop :: "Region \<Rightarrow> char list \<Rightarrow> string \<Rightarrow> run" where
  "print_loop region s out =
     (case deref s of
        None \<Rightarrow> Aborted out Read_Past_End
      | Some c \<Rightarrow>
          if c = NUL then Finished out
          else if c = CHR ''%'' then
            (case read_rounding (tl s) of
               Inl e \<Rightarrow> Aborted out e
             | Inr (rounding, s') \<Rightarrow>
                 (case deref s' of
                    None \<Rightarrow> Aborted out Read_Past_End
                  | Some sel \<Rightarrow>
                      print_loop region (tl s') (out @ print_attr region sel rounding)))
          else print_loop region (tl s) (out @ [c]))"
  by pat_completeness auto
termination
proof (relation "measure (\<lambda>(region, s, out). length s)", goal_cases)
  case 1
  show ?case by simp
next
  case (2 region s out c p rounding s' sel)
  then have "length s' \<le> length (tl s)"
    using read_rounding_length by metis
  moreover from 2 have "s \<noteq> []" "s' \<noteq> []"
    by (auto simp: deref_def)
  ultimately show ?case by (cases s; cases s') auto
next
  case (3 region s out c)
  then show ?case by (cases s) (auto simp: deref_def)
qed

declare print_loop.simps [simp del]

definition print_region_attr :: "string \<Rightarrow> Region \<Rightarrow> run" where
  "print_region_attr fmt region = print_loop region (c_str fmt) []"

section \<open>Interactive selection: \<open>select_region\<close>\<close>

text \<open>
  The events \<open>XNextEvent\<close> can deliver, by \<open>ev.type\<close>. Button and motion events carry
  \<open>x_root\<close> and \<open>y_root\<close>; every other event type is \<open>OtherEvent\<close>.
\<close>

datatype XEvent =
  ButtonPress cint cint
| MotionNotify cint cint
| ButtonRelease cint cint
| OtherEvent

text \<open>
  The Xlib calls of \<open>select_region\<close>, recorded in the order they are made.
  \<open>XDrawRectangle\<close> carries its arguments \<open>x\<close>, \<open>y\<close>, \<open>width\<close>, \<open>height\<close>.
\<close>

datatype xcall =
  XCreateFontCursor
| XGrabPointer
| XCreateGC
| XNextEvent
| XDrawRectangle cint cint cuint cuint
| XFlush
| XUngrabPointer
| XFreeCursor
| XFreeGC
| XSync
| XGetGeometry

text \<open>
  The local variables of \<open>select_region\<close> that the event loop updates. The locals
  \<open>x\<close> and \<open>y\<close> are \<open>loc_x\<close> and \<open>loc_y\<close> here, since \<open>x\<close> and \<open>y\<close> name the
  fields of \<open>Region\<close>.
\<close>

record locals =
  btn_pressed :: bool
  loc_x :: cint
  loc_y :: cint
  width :: cuint
  height :: cuint
  start_x :: cint
  start_y :: cint

text \<open>The initialisers: \<open>btn_pressed = 0\<close>, \<open>x = 0, y = 0\<close>, \<open>width = 0, height = 0\<close>,
  \<open>start_x = 0, start_y = 0\<close>.\<close>

definition init_locals :: locals where
  "init_locals = \<lparr>btn_pressed = False, loc_x = 0, loc_y = 0, width = 0, height = 0,
     start_x = 0, start_y = 0\<rparr>"

text \<open>
  The \<open>switch (ev.type)\<close> of the event loop: the new locals, the Xlib calls made, and
  the flag \<open>done\<close>. The comparison \<open>x > start_x\<close> is a comparison of \<open>int\<close>s; the
  difference is computed in \<open>int\<close> and stored into an \<open>unsigned int\<close>.
\<close>

fun handle_event :: "XEvent \<Rightarrow> locals \<Rightarrow> locals \<times> xcall list \<times> bool" where
  "handle_event (ButtonPress x_root y_root) l =
     (l\<lparr>btn_pressed := True, loc_x := x_root, start_x := x_root,
        loc_y := y_root, start_y := y_root, width := 0, height := 0\<rparr>, [], False)"
| "handle_event (MotionNotify x_root y_root) l =
     (if btn_pressed l then
        let erase = XDrawRectangle (loc_x l) (loc_y l) (width l) (height l);
            (x', width') =
              (if start_x l <s x_root then (start_x l, x_root - start_x l)
               else (x_root, start_x l - x_root));
            (y', height') =
              (if start_y l <s y_root then (start_y l, y_root - start_y l)
               else (y_root, start_y l - y_root))
        in (l\<lparr>loc_x := x', loc_y := y', width := width', height := height'\<rparr>,
            [erase, XDrawRectangle x' y' width' height', XFlush], False)
      else (l, [], False))"
| "handle_event (ButtonRelease x_root y_root) l = (l, [], True)"
| "handle_event OtherEvent l = (l, [], False)"

text \<open>
  The loop \<open>for (;;) { XNextEvent(dpy, &ev); switch ...; if (done) break; }\<close> over the
  events that will be delivered. When no event is left \<open>XNextEvent\<close> blocks for
  ever: the loop does not return, which is \<open>None\<close>. Otherwise the result is the
  locals at the \<open>break\<close>, the calls made, and the events not read.
\<close>

fun event_loop :: "XEvent list \<Rightarrow> locals \<Rightarrow> xcall list \<Rightarrow> (locals \<times> xcall list \<times> XEvent list) option" where
  "event_loop [] l calls = None"
| "event_loop (ev # evs) l calls =
     (case handle_event ev l of
        (l', drawn, done) \<Rightarrow>
          if done then Some (l', calls @ XNextEvent # drawn, evs)
          else event_loop evs l' (calls @ XNextEvent # drawn))"

text \<open>The value a call of \<open>select_region\<close> returns.\<close>

datatype exit_status = EXIT_SUCCESS | EXIT_FAILURE

text \<open>
  What a call of \<open>select_region\<close> that returns leaves behind: the value returned, what
  was stored through the pointer \<open>region\<close> (nothing, or the selected region), the Xlib
  calls made, the text written to standard error, and the events left unread.
\<close>

record selection =
  status :: exit_status
  region_out :: "Region option"
  calls :: "xcall list"
  stderr :: string
  unread :: "XEvent list"

text \<open>The value \<open>GrabSuccess\<close> of \<open>X.h\<close>.\<close>

definition GrabSuccess :: nat where
  "GrabSuccess = 0"

text \<open>
  \<open>select_region\<close>. The display is given by what it answers: the status returned by
  \<open>XGrabPointer\<close>, the events \<open>XNextEvent\<close> delivers, and the answer of
  \<open>XGetGeometry\<close> (\<open>None\<close> when it returns \<open>False\<close>, otherwise the root region
  \<open>rr\<close> it fills in). \<open>sr0\<close> stands for the indeterminate initial contents of the local
  \<open>sr\<close>, whose field \<open>root\<close> is never assigned. The subtraction
  \<open>rr.w - sr.x - sr.w\<close> is made in \<open>unsigned int\<close> and stored into an \<open>int\<close>.
  The result is \<open>None\<close> when the call never returns.
\<close>

definition select_region :: "nat \<Rightarrow> XEvent list \<Rightarrow> Region option \<Rightarrow> Region \<Rightarrow> selection option" where
  "select_region grab_status evs geometry sr0 =
     (if grab_status \<noteq> GrabSuccess then
        Some \<lparr>status = EXIT_FAILURE, region_out = None,
              calls = [XCreateFontCursor, XGrabPointer],
              stderr = ''xrectsel: '' @ ''failed to grab pointer'' @ [CHR 0x0A],
              unread = evs\<rparr>
      else
        (case event_loop evs init_locals [XCreateFontCursor, XGrabPointer, XCreateGC] of
           None \<Rightarrow> None
         | Some (l, calls1, rest) \<Rightarrow>
             let calls2 = calls1 @
                   [XDrawRectangle (loc_x l) (loc_y l) (width l) (height l), XFlush,
                    XUngrabPointer, XFreeCursor, XFreeGC, XSync, XGetGeometry]
             in (case geometry of
                   None \<Rightarrow>
                     Some \<lparr>status = EXIT_FAILURE, region_out = None, calls = calls2,
                           stderr = ''xrectsel: '' @ ''failed to get root window geometry'' @ [CHR 0x0A],
                           unread = rest\<rparr>
                 | Some rr \<Rightarrow>
                     let sr = sr0\<lparr>x := loc_x l, y := loc_y l, w := width l, h := height l\<rparr>;
                         sr = sr\<lparr>X := w rr - x sr - w sr\<rparr>;
                         sr = sr\<lparr>Y := h rr - y sr - h sr\<rparr>;
                         sr = sr\<lparr>b := b rr, d := d rr\<rparr>
                     in Some \<lparr>status = EXIT_SUCCESS, region_out = Some sr, calls = calls2,
                              stderr = [], unread = rest\<rparr>)))"

text \<open>The rectangles drawn by a sequence of calls, in order.\<close>

fun drawn_rectangles :: "xcall list \<Rightarrow> (cint \<times> cint \<times> cuint \<times> cuint) list" where
  "drawn_rectangles [] = []"
| "drawn_rectangles (XDrawRectangle rx ry rw rh # cs) = (rx, ry, rw, rh) # drawn_rectangles cs"
| "drawn_rectangles (c # cs) = drawn_rectangles cs"

section \<open>Notions used to state the properties\<close>

text \<open>The characters that pass the test \<open>c < '0' || c > '9'\<close> of \<open>read_uint_until\<close>.\<close>

definition is_digit :: "char \<Rightarrow> bool" where
  "is_digit c = ((of_char CHR ''0'' :: nat) \<le> of_char c \<and> (of_char c :: nat) \<le> of_char CHR ''9'')"

text \<open>One round of the body of the loop of \<open>read_uint_until\<close> on a digit.\<close>

definition add_digit :: "cuint \<Rightarrow> char \<Rightarrow> cuint" where
  "add_digit value c =
     (if value \<noteq> 0 then value * 10 else value) + of_nat ((of_char c :: nat) - of_char CHR ''0'')"

text \<open>A region and a root geometry for the concrete runs below.\<close>

definition example_region :: Region where
  "example_region = \<lparr>root = 0, x = 10, y = 20, X = 1810, Y = 1010, w = 100, h = 50, b = 0, d = 24\<rparr>"

definition example_root :: Region where
  "example_root = \<lparr>root = 0, x = 0, y = 0, X = 0, Y = 0, w = 1920, h = 1080, b = 0, d = 24\<rparr>"

text \<open>
  Rounding as the specification words it, on mathematical integers: for \<open>r > 0\<close> the
  value becomes \<open>(value / r) * r\<close> with division truncating towards zero, and for
  \<open>r = 0\<close> it is unchanged.
\<close>

definition spec_round :: "int \<Rightarrow> int \<Rightarrow> int" where
  "spec_round v r = (if r > 0 then (sgn v * (\<bar>v\<bar> div r)) * r else v)"

text \<open>
  The specification's reading of "all or nothing": a run that stops with an error has
  written nothing to standard output.
\<close>

fun all_or_nothing :: "run \<Rightarrow> bool" where
  "all_or_nothing (Finished out) = True"
| "all_or_nothing (Aborted out e) = (out = [])"

text \<open>The events that set \<open>done\<close>.\<close>

fun is_release :: "XEvent \<Rightarrow> bool" where
  "is_release (ButtonRelease x_root y_root) = True"
| "is_release ev = False"

text \<open>The tracked rectangle: the arguments the next \<open>XDrawRectangle\<close> is given.\<close>

definition rectangle :: "locals \<Rightarrow> cint \<times> cint \<times> cuint \<times> cuint" where
  "rectangle l = (loc_x l, loc_y l, width l, height l)"

text \<open>The numbers a rectangle stands for: \<open>int\<close> position, \<open>unsigned int\<close> size.\<close>

definition rect_value :: "cint \<times> cint \<times> cuint \<times> cuint \<Rightarrow> int \<times> int \<times> int \<times> int" where
  "rect_value r = (case r of (rx, ry, rw, rh) \<Rightarrow> (sint rx, sint ry, uint rw, uint rh))"

text \<open>
  Normalisation as the specification words it, on mathematical integers: the top-left
  corner is the component-wise minimum of anchor and current position, and the size is
  the distance between them.
\<close>

definition spec_normalize :: "int \<times> int \<Rightarrow> int \<times> int \<Rightarrow> int \<times> int \<times> int \<times> int" where
  "spec_normalize anchor cur =
     (min (fst anchor) (fst cur), min (snd anchor) (snd cur),
      \<bar>fst cur - fst anchor\<bar>, \<bar>snd cur - snd anchor\<bar>)"

text \<open>How often a sequence of calls draws a given rectangle.\<close>

definition draw_count :: "cint \<times> cint \<times> cuint \<times> cuint \<Rightarrow> xcall list \<Rightarrow> nat" where
  "draw_count r cs = count_list (drawn_rectangles cs) r"

text \<open>
  An event whose pointer position lies on a root window of the given width and height.
  The loop does not read the position of a release or of any other event.
\<close>

fun on_root :: "int \<Rightarrow> int \<Rightarrow> XEvent \<Rightarrow> bool" where
  "on_root W H (ButtonPress x_root y_root) =
     (0 \<le> sint x_root \<and> sint x_root < W \<and> 0 \<le> sint y_root \<and> sint y_root < H)"
| "on_root W H (MotionNotify x_root y_root) =
     (0 \<le> sint x_root \<and> sint x_root < W \<and> 0 \<le> sint y_root \<and> sint y_root < H)"
| "on_root W H ev = True"

text \<open>The tracked rectangle and the anchor lie on a root window of the given size.\<close>

definition inside :: "int \<Rightarrow> int \<Rightarrow> locals \<Rightarrow> bool" where
  "inside W H l =
     (0 \<le> sint (loc_x l) \<and> sint (loc_x l) + uint (width l) < W
      \<and> 0 \<le> sint (start_x l) \<and> sint (start_x l) < W
      \<and> 0 \<le> sint (loc_y l) \<and> sint (loc_y l) + uint (height l) < H
      \<and> 0 \<le> sint (start_y l) \<and> sint (start_y l) < H)"

text \<open>
  The text of a rounding clause, from after the opening bracket to the end of the
  format string, that holds no closing bracket.
\<close>

definition unterminated :: "string \<Rightarrow> bool" where
  "unterminated content = (CHR '']'' \<notin> set content)"

text \<open>A sequence of calls that creates a cursor more often than it frees one.\<close>

definition cursor_left_behind :: "xcall list \<Rightarrow> bool" where
  "cursor_left_behind cs = (count_list cs XFreeCursor < count_list cs XCreateFontCursor)"

section \<open>Facts about the scanner\<close>

subsection \<open>\<open>read_uint_until\<close> step by step\<close>

lemma is_digit_not_NUL: "is_digit c \<Longrightarrow> c \<noteq> NUL"
  by (auto simp: is_digit_def)

lemma is_digit_not_bracket: "is_digit c \<Longrightarrow> c \<noteq> CHR '']''"
  by (auto simp: is_digit_def)

lemma read_uint_loop_stop:
  "read_uint_loop (c0 # stop # rest) stop v = Inr (v, stop # rest)"
  by (simp add: read_uint_loop.simps deref_def)

lemma read_uint_loop_NUL:
  "stop \<noteq> NUL \<Longrightarrow> read_uint_loop (c0 # NUL # rest) stop v = Inl (No_Matching stop)"
  by (simp add: read_uint_loop.simps deref_def)

lemma read_uint_loop_bad:
  "c \<noteq> stop \<Longrightarrow> c \<noteq> NUL \<Longrightarrow> \<not> is_digit c \<Longrightarrow>
   read_uint_loop (c0 # c # rest) stop v = Inl (Unexpected_Character c)"
  by (auto simp: read_uint_loop.simps deref_def is_digit_def)

lemma read_uint_loop_digit:
  "c \<noteq> stop \<Longrightarrow> is_digit c \<Longrightarrow>
   read_uint_loop (c0 # c # rest) stop v = read_uint_loop (c # rest) stop (add_digit v c)"
  using is_digit_not_NUL [of c]
  by (subst read_uint_loop.simps(2)) (auto simp: deref_def is_digit_def add_digit_def Let_def)

lemma read_uint_loop_digits:
  "list_all is_digit ds \<Longrightarrow>
   read_uint_loop (c0 # ds @ t) (CHR '']'') v
     = read_uint_loop (last (c0 # ds) # t) (CHR '']'') (foldl add_digit v ds)"
proof (induction ds arbitrary: c0 v)
  case Nil
  then show ?case by simp
next
  case (Cons c ds)
  then have c: "is_digit c" and ds: "list_all is_digit ds"
    by simp_all
  have "read_uint_loop (c0 # (c # ds) @ t) (CHR '']'') v
          = read_uint_loop (c # ds @ t) (CHR '']'') (add_digit v c)"
    using c is_digit_not_bracket [OF c] by (simp add: read_uint_loop_digit)
  also have "\<dots> = read_uint_loop (last (c # ds) # t) (CHR '']'') (foldl add_digit (add_digit v c) ds)"
    by (rule Cons.IH [OF ds])
  finally show ?case by simp
qed

lemma read_uint_until_closed:
  "list_all is_digit ds \<Longrightarrow>
   read_uint_until (c0 # ds @ CHR '']'' # rest) (CHR '']'') = Inr (foldl add_digit 0 ds, CHR '']'' # rest)"
  by (simp add: read_uint_until_def read_uint_loop_digits read_uint_loop_stop)

lemma read_uint_until_unterminated:
  "list_all is_digit ds \<Longrightarrow>
   read_uint_until (c0 # ds @ NUL # rest) (CHR '']'') = Inl (No_Matching (CHR '']''))"
  by (simp add: read_uint_until_def read_uint_loop_digits read_uint_loop_NUL)

lemma read_uint_until_bad:
  "list_all is_digit ds \<Longrightarrow> c \<noteq> CHR '']'' \<Longrightarrow> c \<noteq> NUL \<Longrightarrow> \<not> is_digit c \<Longrightarrow>
   read_uint_until (c0 # ds @ c # rest) (CHR '']'') = Inl (Unexpected_Character c)"
  by (simp add: read_uint_until_def read_uint_loop_digits read_uint_loop_bad)


subsection \<open>The rounding clause and one round of the \<open>for\<close> loop\<close>

lemma read_rounding_plain: "c \<noteq> CHR ''['' \<Longrightarrow> read_rounding (c # s) = Inr (0, c # s)"
  by (simp add: read_rounding_def deref_def)

lemma read_rounding_clause:
  "list_all is_digit ds \<Longrightarrow>
   read_rounding (CHR ''['' # ds @ CHR '']'' # rest) = Inr (foldl add_digit 0 ds, rest)"
  by (simp add: read_rounding_def deref_def read_uint_until_closed)

lemma read_rounding_unterminated:
  "list_all is_digit ds \<Longrightarrow>
   read_rounding (CHR ''['' # ds @ NUL # rest) = Inl (No_Matching (CHR '']''))"
  by (simp add: read_rounding_def deref_def read_uint_until_unterminated)

lemma read_rounding_bad:
  "list_all is_digit ds \<Longrightarrow> c \<noteq> CHR '']'' \<Longrightarrow> c \<noteq> NUL \<Longrightarrow> \<not> is_digit c \<Longrightarrow>
   read_rounding (CHR ''['' # ds @ c # rest) = Inl (Unexpected_Character c)"
  by (simp add: read_rounding_def deref_def read_uint_until_bad)

lemma print_loop_Nil: "print_loop region [] out = Aborted out Read_Past_End"
  by (simp add: print_loop.simps deref_def)

lemma print_loop_NUL: "print_loop region (NUL # s) out = Finished out"
  by (simp add: print_loop.simps deref_def)

lemma print_loop_literal:
  "c \<noteq> NUL \<Longrightarrow> c \<noteq> CHR ''%'' \<Longrightarrow> print_loop region (c # s) out = print_loop region s (out @ [c])"
  by (subst print_loop.simps) (simp add: deref_def)

lemma print_loop_directive:
  "read_rounding s = Inr (r, sel # s') \<Longrightarrow>
   print_loop region (CHR ''%'' # s) out = print_loop region s' (out @ print_attr region sel r)"
  by (subst print_loop.simps) (simp add: deref_def)

lemma print_loop_directive_error:
  "read_rounding s = Inl e \<Longrightarrow> print_loop region (CHR ''%'' # s) out = Aborted out e"
  by (subst print_loop.simps) (simp add: deref_def)


lemma print_attr_other: "sel \<notin> set ''%xyXYwhbd'' \<Longrightarrow> print_attr region sel r = []"
  by (simp add: print_attr_def)

subsection \<open>Clauses without a closing bracket\<close>

text \<open>
  The first character after the bracket that is not a digit decides the error: the
  terminating NUL gives \<open>No matching ]\<close>, any other character is reported as
  unexpected.
\<close>

lemma first_non_digit:
  assumes "list_all is_digit ds" and "\<not> is_digit c"
  shows "hd (dropWhile is_digit (ds @ c # rest)) = c" and "\<not> list_all is_digit (ds @ c # rest)"
proof -
  from assms(1) have "dropWhile is_digit (ds @ c # rest) = dropWhile is_digit (c # rest)"
    by (intro dropWhile_append2) (simp add: list_all_iff)
  with assms(2) show "hd (dropWhile is_digit (ds @ c # rest)) = c" by simp
  from assms(2) show "\<not> list_all is_digit (ds @ c # rest)" by simp
qed

lemma unterminated_clause_error:
  assumes "unterminated content" and "NUL \<notin> set content"
  shows "print_loop region (''%['' @ content @ [NUL]) out =
           Aborted out (if list_all is_digit content then No_Matching (CHR '']'')
                        else Unexpected_Character (hd (dropWhile is_digit content)))"
proof (cases "list_all is_digit content")
  case True
  then show ?thesis
    by (simp add: print_loop_directive_error read_rounding_unterminated)
next
  case False
  then have "\<exists>c\<in>set content. \<not> is_digit c"
    by (simp add: list_all_iff)
  from split_list_first_prop [OF this]
  obtain ds c rest where eq: "content = ds @ c # rest" and c: "\<not> is_digit c"
    and ds: "\<forall>a\<in>set ds. \<not> \<not> is_digit a"
    by blast
  from ds have ds': "list_all is_digit ds" by (simp add: list_all_iff)
  from assms eq have c2: "c \<noteq> CHR '']''" "c \<noteq> NUL"
    by (auto simp: unterminated_def)
  have "read_rounding (CHR ''['' # ds @ c # (rest @ [NUL])) = Inl (Unexpected_Character c)"
    using ds' c2 c by (rule read_rounding_bad)
  then have "print_loop region (CHR ''%'' # CHR ''['' # ds @ c # (rest @ [NUL])) out
               = Aborted out (Unexpected_Character c)"
    by (rule print_loop_directive_error)
  with first_non_digit [OF ds' c, of rest] show ?thesis
    unfolding eq by simp
qed

subsection \<open>What follows a scanned prefix does not change how the prefix is scanned\<close>

text \<open>
  When the scan of \<open>pre\<close>, as a string of its own, reaches its terminating NUL at the
  head of the loop, the scan of any buffer that starts with \<open>pre\<close> arrives at the end of
  \<open>pre\<close> with the same output.
\<close>

lemma read_uint_loop_append:
  assumes "read_uint_loop (q @ [NUL]) stop v = Inr (r, s2)" and "stop \<noteq> NUL" and "NUL \<notin> set q"
  shows "\<exists>q2. q2 \<noteq> [] \<and> s2 = q2 @ [NUL] \<and> set q2 \<subseteq> set q
           \<and> (\<forall>t. read_uint_loop (q @ t) stop v = Inr (r, q2 @ t))"
  using assms
proof (induction q arbitrary: v)
  case Nil
  then show ?case by (simp add: read_uint_loop.simps deref_def)
next
  case (Cons c0 q')
  show ?case
  proof (cases q')
    case Nil
    with Cons.prems show ?thesis by (simp add: read_uint_loop.simps deref_def)
  next
    case (Cons c q'')
    with Cons.prems have cN: "c \<noteq> NUL" by auto
    show ?thesis
    proof (cases "c = stop")
      case True
      with Cons.prems \<open>q' = c # q''\<close> have "s2 = (c # q'') @ [NUL]" "r = v"
        by (simp_all add: read_uint_loop.simps deref_def)
      with True \<open>q' = c # q''\<close> show ?thesis
        by (intro exI [of _ "c # q''"]) (auto simp: read_uint_loop.simps deref_def)
    next
      case False
      show ?thesis
      proof (cases "is_digit c")
        case d: True
        from Cons.prems(1) \<open>q' = c # q''\<close> False d
        have "read_uint_loop (q' @ [NUL]) stop (add_digit v c) = Inr (r, s2)"
          by (simp add: read_uint_loop_digit)
        from Cons.IH [OF this] Cons.prems(2,3)
        obtain q2 where q2: "q2 \<noteq> []" "s2 = q2 @ [NUL]" "set q2 \<subseteq> set q'"
          "\<forall>t. read_uint_loop (q' @ t) stop (add_digit v c) = Inr (r, q2 @ t)"
          by auto
        have "read_uint_loop ((c0 # q') @ t) stop v = Inr (r, q2 @ t)" for t
          using q2(4) \<open>q' = c # q''\<close> False d by (simp add: read_uint_loop_digit)
        with q2 show ?thesis by auto
      next
        case nd: False
        with Cons.prems(1) \<open>q' = c # q''\<close> False cN show ?thesis
          by (simp add: read_uint_loop_bad)
      qed
    qed
  qed
qed

lemma read_rounding_append:
  assumes "read_rounding (p @ [NUL]) = Inr (r, s')" and "p \<noteq> []" and "NUL \<notin> set p"
  shows "\<exists>p'. s' = p' @ [NUL] \<and> set p' \<subseteq> set p \<and> length p' \<le> length p
           \<and> (\<forall>t. read_rounding (p @ t) = Inr (r, p' @ t))"
proof -
  from assms(2) obtain c p1 where p: "p = c # p1" by (cases p) auto
  show ?thesis
  proof (cases "c = CHR ''[''")
    case True
    with assms(1) p obtain s2 where s2: "read_uint_loop (p @ [NUL]) (CHR '']'') 0 = Inr (r, s2)"
      and s': "s' = tl s2"
      by (auto simp: read_rounding_def read_uint_until_def deref_def split: sum.splits)
    from read_uint_loop_append [OF s2 _ assms(3)]
    obtain q2 where q2: "q2 \<noteq> []" "s2 = q2 @ [NUL]" "set q2 \<subseteq> set p"
      "\<forall>t. read_uint_loop (p @ t) (CHR '']'') 0 = Inr (r, q2 @ t)"
      by auto
    from q2(1) obtain c2 p' where c2: "q2 = c2 # p'" by (cases q2) auto
    have "read_rounding (p @ t) = Inr (r, p' @ t)" for t
      using q2(4) c2 True p by (simp add: read_rounding_def read_uint_until_def deref_def)
    moreover have "length s' \<le> length (p @ [NUL])"
      by (rule read_rounding_length [OF assms(1)])
    ultimately show ?thesis
      using q2 c2 s' by (intro exI [of _ p']) auto
  next
    case False
    with assms(1) p have "s' = p @ [NUL]" "r = 0"
      by (simp_all add: read_rounding_plain)
    with False p show ?thesis
      by (intro exI [of _ p]) (simp add: read_rounding_plain)
  qed
qed

lemma print_loop_append:
  "NUL \<notin> set pre \<Longrightarrow> print_loop region (pre @ [NUL]) out = Finished out' \<Longrightarrow>
   print_loop region (pre @ t) out = print_loop region t out'"
proof (induction pre arbitrary: out rule: length_induct)
  case (1 pre)
  show ?case
  proof (cases pre)
    case Nil
    with "1.prems" show ?thesis by (simp add: print_loop_NUL)
  next
    case (Cons c p)
    with "1.prems" have cN: "c \<noteq> NUL" and pN: "NUL \<notin> set p" by auto
    show ?thesis
    proof (cases "c = CHR ''%''")
      case False
      with "1.prems"(2) Cons cN have "print_loop region (p @ [NUL]) (out @ [c]) = Finished out'"
        by (simp add: print_loop_literal)
      with "1.IH" pN Cons have "print_loop region (p @ t) (out @ [c]) = print_loop region t out'"
        by simp
      with False Cons cN show ?thesis by (simp add: print_loop_literal)
    next
      case True
      show ?thesis
      proof (cases "read_rounding (p @ [NUL])")
        case (Inl e)
        with "1.prems"(2) Cons True show ?thesis
          by (simp add: print_loop_directive_error)
      next
        case (Inr a)
        then obtain r s' where rs: "read_rounding (p @ [NUL]) = Inr (r, s')"
          by (cases a) auto
        show ?thesis
        proof (cases "p = []")
          case pe: True
          have "read_rounding [NUL] = Inr (0, [NUL])"
            by (simp add: read_rounding_plain)
          from print_loop_directive [OF this, of region out] "1.prems"(2) Cons True pe
          show ?thesis by (simp add: print_loop_Nil)
        next
          case pne: False
          from read_rounding_append [OF rs pne pN]
          obtain p' where p': "s' = p' @ [NUL]" "set p' \<subseteq> set p" "length p' \<le> length p"
            "\<forall>t. read_rounding (p @ t) = Inr (r, p' @ t)"
            by auto
          show ?thesis
          proof (cases p')
            case Nil
            with rs p'(1) have "read_rounding (p @ [NUL]) = Inr (r, [NUL])" by simp
            from print_loop_directive [OF this, of region out] "1.prems"(2) Cons True
            show ?thesis by (simp add: print_loop_Nil)
          next
            case (Cons sel p'')
            with rs p'(1) have "read_rounding (p @ [NUL]) = Inr (r, sel # p'' @ [NUL])" by simp
            from print_loop_directive [OF this, of region out] "1.prems"(2) \<open>pre = c # p\<close> True
            have fin: "print_loop region (p'' @ [NUL]) (out @ print_attr region sel r) = Finished out'"
              by simp
            have "length p'' < length pre" "NUL \<notin> set p''"
              using p'(2,3) Cons \<open>pre = c # p\<close> pN by auto
            with "1.IH" fin
            have "print_loop region (p'' @ t) (out @ print_attr region sel r) = print_loop region t out'"
              by blast
            moreover from p'(4) Cons have "read_rounding (p @ t) = Inr (r, sel # p'' @ t)"
              by simp
            ultimately show ?thesis
              using print_loop_directive [of "p @ t" r sel "p'' @ t" region out] \<open>pre = c # p\<close> True
              by simp
          qed
        qed
      qed
    qed
  qed
qed



subsection \<open>Rounding of unsigned and of non-negative values\<close>

text \<open>
  On the unsigned reading \<open>ROUND\<close> is \<open>(value / r) * r\<close> for \<open>r > 0\<close> and leaves the
  value alone for \<open>r = 0\<close>. A signed value that is not negative is rounded as the
  specification says.
\<close>

lemma ROUND_zero: "ROUND v 0 = v"
  by (simp add: ROUND_def)

lemma div_mult_le_int:
  assumes "0 \<le> (a::int)" and "0 < c"
  shows "a div c * c \<le> a \<and> 0 \<le> a div c * c"
proof -
  have "a div c * c = a - a mod c"
    by (simp add: minus_mod_eq_div_mult)
  moreover have "0 \<le> a mod c" using assms(2) by simp
  moreover have "0 \<le> a div c" using assms by (simp add: pos_imp_zdiv_nonneg_iff)
  moreover have "0 \<le> a div c * c" using \<open>0 \<le> a div c\<close> assms(2) by simp
  ultimately show ?thesis by linarith
qed

lemma uint_ROUND:
  assumes "0 < r"
  shows "uint (ROUND v r) = (uint v div uint r) * uint r"
proof -
  have r: "0 < uint r"
    using assms by (simp add: word_less_def)
  have le: "(uint v div uint r) * uint r \<le> uint v" "0 \<le> (uint v div uint r) * uint r"
    using div_mult_le_int [of "uint v" "uint r"] r by simp_all
  have "uint ((v div r) * r) = (uint (v div r) * uint r) mod 2 ^ 32"
    by (simp add: uint_word_ariths)
  also have "\<dots> = ((uint v div uint r) * uint r) mod 2 ^ 32"
    by (simp add: uint_div)
  also have "\<dots> = (uint v div uint r) * uint r"
    using le uint_lt2p [of v] by (intro mod_pos_pos_trivial) auto
  finally show ?thesis using assms by (simp add: ROUND_def)
qed

lemma sint_ROUND_nonneg:
  assumes "0 \<le> sint v"
  shows "sint (ROUND v r) = spec_round (sint v) (uint r)"
proof (cases "0 < r")
  case False
  then have "r = 0" by (simp add: word_greater_zero_iff)
  then show ?thesis by (simp add: ROUND_def spec_round_def)
next
  case True
  then have r: "0 < uint r" by (simp add: word_less_def)
  have "sint v < 2 ^ 31" using sint_lt [of v] by simp
  with assms have "take_bit 32 (sint v) = sint v"
    by (intro take_bit_int_eq_self) auto
  then have sv: "uint v = sint v"
    by (simp add: uint_sint)
  have le: "uint (ROUND v r) \<le> uint v" "0 \<le> uint (ROUND v r)"
    using div_mult_le_int [of "uint v" "uint r"] r by (simp_all add: uint_ROUND [OF True])
  with sv \<open>sint v < 2 ^ 31\<close> have "signed_take_bit 31 (uint (ROUND v r)) = uint (ROUND v r)"
    by (intro signed_take_bit_int_eq_self) linarith+
  then have "sint (ROUND v r) = uint (ROUND v r)"
    by (simp add: sint_uint)
  then show ?thesis
    using r assms sv by (simp add: uint_ROUND [OF True] spec_round_def sgn_if)
qed

lemma rounding_example:
  "print_region_attr ''%[10]w'' (example_region\<lparr>w := 47\<rparr>) = Finished ''40''"
  by code_simp

section \<open>Facts about the selection loop\<close>

lemma word_diff_of_sint:
  fixes a c :: "32 word"
  shows "c - a = word_of_int (sint c - sint a)"
  by simp

lemma uint_diff_sint:
  fixes a c :: "32 word"
  assumes "sint a \<le> sint c"
  shows "uint (c - a) = sint c - sint a"
proof -
  have lo: "- (2 ^ 31) \<le> sint a" "- (2 ^ 31) \<le> sint c"
    using sint_ge [of a] sint_ge [of c] by simp_all
  have hi: "sint a < 2 ^ 31" "sint c < 2 ^ 31"
    using sint_lt [of a] sint_lt [of c] by simp_all
  have e: "uint (word_of_int k :: 32 word) = k mod 2 ^ 32" for k
    by (simp add: uint_word_of_int)
  have "uint (c - a) = uint (word_of_int (sint c - sint a) :: 32 word)"
    by (simp only: word_diff_of_sint [symmetric])
  also have "\<dots> = (sint c - sint a) mod 2 ^ 32"
    by (rule e)
  also have "\<dots> = sint c - sint a"
    using assms lo hi by (intro mod_pos_pos_trivial) auto
  finally show ?thesis .
qed

lemma event_loop_returns:
  "list_ex is_release evs \<Longrightarrow> \<exists>l' cs' rest. event_loop evs l cs = Some (l', cs', rest)"
proof (induction evs arbitrary: l cs)
  case Nil
  then show ?case by simp
next
  case (Cons ev evs)
  show ?case
  proof (cases "snd (snd (handle_event ev l))")
    case True
    then show ?thesis by (cases "handle_event ev l") simp
  next
    case False
    then have "\<not> is_release ev" by (cases ev) auto
    with Cons.prems have "list_ex is_release evs" by simp
    from Cons.IH [OF this] False show ?thesis
      by (cases "handle_event ev l") simp
  qed
qed

lemma sint_offset:
  fixes a c e :: "32 word"
  shows "sint (a - c - e) = signed_take_bit 31 (uint a - sint c - uint e)"
proof -
  have "a - c - e = word_of_int (uint a - sint c - uint e)"
    by simp
  then have "sint (a - c - e) = sint (word_of_int (uint a - sint c - uint e) :: 32 word)"
    by (simp only:)
  also have "\<dots> = signed_take_bit 31 (uint a - sint c - uint e)"
    by (simp only: sint_sbintrunc') simp
  finally show ?thesis .
qed



lemma motion_rect_value:
  assumes "btn_pressed l"
  shows "rect_value (rectangle (fst (handle_event (MotionNotify px py) l)))
           = spec_normalize (sint (start_x l), sint (start_y l)) (sint px, sint py)"
proof -
  have wx: "uint (if start_x l <s px then px - start_x l else start_x l - px)
              = \<bar>sint px - sint (start_x l)\<bar>"
    by (simp add: word_sless_alt uint_diff_sint)
  have wy: "uint (if start_y l <s py then py - start_y l else start_y l - py)
              = \<bar>sint py - sint (start_y l)\<bar>"
    by (simp add: word_sless_alt uint_diff_sint)
  from assms wx wy show ?thesis
    by (auto simp: rect_value_def rectangle_def spec_normalize_def Let_def word_sless_alt min_def
          split: if_splits)
qed

lemma drawn_rectangles_append:
  "drawn_rectangles (cs @ cs') = drawn_rectangles cs @ drawn_rectangles cs'"
  by (induction cs rule: drawn_rectangles.induct) simp_all

lemma handle_event_draws_even:
  "handle_event ev l = (l', drawn, dn) \<Longrightarrow> even (length (drawn_rectangles drawn))"
  by (cases ev) (auto simp: Let_def split: if_splits prod.splits)

lemma event_loop_draws_even:
  "event_loop evs l cs = Some (l', cs', rest) \<Longrightarrow> even (length (drawn_rectangles cs)) \<Longrightarrow>
   even (length (drawn_rectangles cs'))"
proof (induction evs arbitrary: l cs)
  case Nil
  then show ?case by simp
next
  case (Cons ev evs)
  obtain l1 drawn dn where h: "handle_event ev l = (l1, drawn, dn)"
    by (cases "handle_event ev l") auto
  from handle_event_draws_even [OF h] Cons.prems(2)
  have e: "even (length (drawn_rectangles (cs @ XNextEvent # drawn)))"
    by (simp add: drawn_rectangles_append)
  show ?case
  proof (cases dn)
    case True
    with Cons.prems(1) h e show ?thesis by auto
  next
    case False
    with Cons.prems(1) h have "event_loop evs l1 (cs @ XNextEvent # drawn) = Some (l', cs', rest)"
      by simp
    from Cons.IH [OF this e] show ?thesis .
  qed
qed

lemma select_region_draws_odd:
  assumes "select_region GrabSuccess evs geometry sr0 = Some sel"
  shows "odd (length (drawn_rectangles (calls sel)))"
proof -
  from assms obtain l cs rest where
    el: "event_loop evs init_locals [XCreateFontCursor, XGrabPointer, XCreateGC] = Some (l, cs, rest)"
    and c: "calls sel = cs @ [XDrawRectangle (loc_x l) (loc_y l) (width l) (height l), XFlush,
                    XUngrabPointer, XFreeCursor, XFreeGC, XSync, XGetGeometry]"
    by (auto simp: select_region_def Let_def split: option.splits)
  from event_loop_draws_even [OF el] have "even (length (drawn_rectangles cs))" by simp
  with c show ?thesis by (simp add: drawn_rectangles_append)
qed

subsection \<open>The cursor\<close>

text \<open>
  The event loop neither creates nor frees a cursor, and every return after a successful
  grab comes after \<open>XFreeCursor\<close>.
\<close>

lemma handle_event_no_cursor_calls:
  "handle_event ev l = (l', drawn, dn) \<Longrightarrow>
   count_list drawn XCreateFontCursor = 0 \<and> count_list drawn XFreeCursor = 0"
  by (cases ev) (auto simp: Let_def split: if_splits prod.splits)

lemma event_loop_cursor_calls:
  "event_loop evs l cs = Some (l', cs', rest) \<Longrightarrow>
   count_list cs' XCreateFontCursor = count_list cs XCreateFontCursor
   \<and> count_list cs' XFreeCursor = count_list cs XFreeCursor"
proof (induction evs arbitrary: l cs)
  case Nil
  then show ?case by simp
next
  case (Cons ev evs)
  obtain l1 drawn dn where h: "handle_event ev l = (l1, drawn, dn)"
    by (cases "handle_event ev l") auto
  note n = handle_event_no_cursor_calls [OF h]
  show ?case
  proof (cases dn)
    case True
    with Cons.prems h n show ?thesis by auto
  next
    case False
    with Cons.prems h have "event_loop evs l1 (cs @ XNextEvent # drawn) = Some (l', cs', rest)"
      by simp
    from Cons.IH [OF this] n show ?thesis by simp
  qed
qed

lemma grab_success_frees_cursor:
  assumes "select_region GrabSuccess evs geometry sr0 = Some sel"
  shows "\<not> cursor_left_behind (calls sel)"
proof -
  from assms obtain l cs rest where
    el: "event_loop evs init_locals [XCreateFontCursor, XGrabPointer, XCreateGC] = Some (l, cs, rest)"
    and c: "calls sel = cs @ [XDrawRectangle (loc_x l) (loc_y l) (width l) (height l), XFlush,
                    XUngrabPointer, XFreeCursor, XFreeGC, XSync, XGetGeometry]"
    by (auto simp: select_region_def Let_def split: option.splits)
  from event_loop_cursor_calls [OF el] c show ?thesis
    by (simp add: cursor_left_behind_def)
qed

subsection \<open>Offsets as integers\<close>

text \<open>
  When every press and motion is on the root window, the tracked rectangle stays on it,
  and the offsets from the right and bottom edges are the exact integer differences.
\<close>

lemma handle_event_inside:
  assumes "on_root W H ev" and "inside W H l"
  shows "inside W H (fst (handle_event ev l))"
proof (cases ev)
  case (ButtonPress ex ey)
  with assms show ?thesis by (simp add: inside_def)
next
  case (MotionNotify ex ey)
  show ?thesis
  proof (cases "btn_pressed l")
    case True
    let ?l' = "fst (handle_event (MotionNotify ex ey) l)"
    from motion_rect_value [OF True, of ex ey]
    have "sint (loc_x ?l') = min (sint (start_x l)) (sint ex)"
      "sint (loc_y ?l') = min (sint (start_y l)) (sint ey)"
      "uint (width ?l') = \<bar>sint ex - sint (start_x l)\<bar>"
      "uint (height ?l') = \<bar>sint ey - sint (start_y l)\<bar>"
      by (simp_all add: rect_value_def rectangle_def spec_normalize_def)
    moreover have "start_x ?l' = start_x l" "start_y ?l' = start_y l"
      using True by (simp_all add: Let_def split: prod.splits)
    ultimately show ?thesis
      using assms MotionNotify unfolding inside_def by (simp add: min_def abs_if del: handle_event.simps)
  next
    case False
    with assms MotionNotify show ?thesis by simp
  qed
next
  case (ButtonRelease ex ey)
  with assms show ?thesis by simp
next
  case OtherEvent
  with assms show ?thesis by simp
qed

lemma event_loop_inside:
  "list_all (on_root W H) evs \<Longrightarrow> inside W H l \<Longrightarrow>
   event_loop evs l cs = Some (l', cs', rest) \<Longrightarrow> inside W H l'"
proof (induction evs arbitrary: l cs)
  case Nil
  then show ?case by simp
next
  case (Cons ev evs)
  obtain l1 drawn dn where h: "handle_event ev l = (l1, drawn, dn)"
    by (cases "handle_event ev l") auto
  from Cons.prems(1,2) have i: "inside W H l1"
    using handle_event_inside [of W H ev l] h by simp
  show ?case
  proof (cases dn)
    case True
    with Cons.prems(3) h i show ?thesis by simp
  next
    case False
    with Cons.prems(3) h have "event_loop evs l1 (cs @ XNextEvent # drawn) = Some (l', cs', rest)"
      by simp
    with Cons.IH [of l1] Cons.prems(1) i show ?thesis by simp
  qed
qed

lemma select_region_offsets_exact:
  assumes "select_region GrabSuccess evs (Some rr) sr0 = Some sel"
    and "list_all (on_root (uint (w rr)) (uint (h rr))) evs"
    and "0 < uint (w rr)" "uint (w rr) < 2 ^ 31" "0 < uint (h rr)" "uint (h rr) < 2 ^ 31"
  shows "\<exists>sr. region_out sel = Some sr
           \<and> sint (X sr) = uint (w rr) - sint (x sr) - uint (w sr) \<and> 0 < sint (X sr)
           \<and> sint (Y sr) = uint (h rr) - sint (y sr) - uint (h sr) \<and> 0 < sint (Y sr)"
proof -
  from assms(1) obtain l cs rest where
    el: "event_loop evs init_locals [XCreateFontCursor, XGrabPointer, XCreateGC] = Some (l, cs, rest)"
    and sr: "region_out sel = Some (sr0\<lparr>x := loc_x l, y := loc_y l, w := width l, h := height l,
               X := w rr - loc_x l - width l, Y := h rr - loc_y l - height l, b := b rr, d := d rr\<rparr>)"
    by (auto simp: select_region_def Let_def split: option.splits)
  have "inside (uint (w rr)) (uint (h rr)) init_locals"
    using assms(3,5) by (simp add: inside_def init_locals_def)
  from event_loop_inside [OF assms(2) this el]
  have i: "inside (uint (w rr)) (uint (h rr)) l" .
  have wx: "0 \<le> uint (width l)" and hy: "0 \<le> uint (height l)"
    by simp_all
  from i have ix: "0 \<le> sint (loc_x l)" "sint (loc_x l) + uint (width l) < uint (w rr)"
    and iy: "0 \<le> sint (loc_y l)" "sint (loc_y l) + uint (height l) < uint (h rr)"
    by (simp_all add: inside_def)
  from ix assms(4) wx
  have "- (2 ^ 31) \<le> uint (w rr) - sint (loc_x l) - uint (width l)"
    "uint (w rr) - sint (loc_x l) - uint (width l) < 2 ^ 31"
    by linarith+
  then have X: "signed_take_bit 31 (uint (w rr) - sint (loc_x l) - uint (width l))
             = uint (w rr) - sint (loc_x l) - uint (width l)"
    by (rule signed_take_bit_int_eq_self)
  from iy assms(6) hy
  have "- (2 ^ 31) \<le> uint (h rr) - sint (loc_y l) - uint (height l)"
    "uint (h rr) - sint (loc_y l) - uint (height l) < 2 ^ 31"
    by linarith+
  then have Y: "signed_take_bit 31 (uint (h rr) - sint (loc_y l) - uint (height l))
             = uint (h rr) - sint (loc_y l) - uint (height l)"
    by (rule signed_take_bit_int_eq_self)
  from sr X Y ix iy show ?thesis
    by (simp add: sint_offset)
qed

subsection \<open>Sample runs\<close>

lemma default_format_example:
  "print_region_attr (''%wx%h+%x+%y'' @ [CHR 0x0A]) example_region
     = Finished (''100x50+10+20'' @ [CHR 0x0A])"
  by code_simp

lemma literal_percent_example: "print_region_attr ''%%'' region = Finished ''%''"
  by (simp add: print_region_attr_def c_str_def print_loop_directive read_rounding_plain
      print_attr_def print_loop_NUL)

lemma click_example:
  "map_option (\<lambda>sel. (status sel, region_out sel))
     (select_region GrabSuccess [ButtonPress 30 40, ButtonRelease 30 40] (Some example_root) example_region)
   = Some (EXIT_SUCCESS,
       Some (example_region\<lparr>x := 30, y := 40, w := 0, h := 0, X := 1890, Y := 1040, b := 0, d := 24\<rparr>))"
  by code_simp

lemma drag_example:
  "map_option (\<lambda>sel. (status sel, region_out sel))
     (select_region GrabSuccess [ButtonPress 30 40, MotionNotify 10 100, ButtonRelease 10 100]
        (Some example_root) example_region)
   = Some (EXIT_SUCCESS,
       Some (example_region\<lparr>x := 10, y := 40, w := 20, h := 60, X := 1890, Y := 980, b := 0, d := 24\<rparr>))"
  by code_simp

section \<open>The properties\<close>

subsection \<open>The selected region\<close>

text \<open>
  C1. For every sequence of events that contains a button release, with the grab
  acquired and the root geometry answered, \<open>select_region\<close> returns \<open>EXIT_SUCCESS\<close>
  and stores a region whose \<open>X\<close> and \<open>Y\<close> are \<open>rootWidth - x - w\<close> and
  \<open>rootHeight - y - h\<close>, where \<open>rootWidth\<close> and \<open>rootHeight\<close> are the fields \<open>w\<close> and
  \<open>h\<close> that \<open>XGetGeometry\<close> filled in. The subtraction is the one of the C
  expression, on 32-bit values; read as integers, \<open>X\<close> and \<open>Y\<close> are the differences
  brought back into the range of \<open>int\<close>.
\<close>

theorem select_region_derived_offsets:
  assumes "list_ex is_release evs"
  shows "\<exists>sel sr. select_region GrabSuccess evs (Some rr) sr0 = Some sel
           \<and> status sel = EXIT_SUCCESS \<and> region_out sel = Some sr
           \<and> X sr = w rr - x sr - w sr \<and> Y sr = h rr - y sr - h sr
           \<and> sint (X sr) = signed_take_bit 31 (uint (w rr) - sint (x sr) - uint (w sr))
           \<and> sint (Y sr) = signed_take_bit 31 (uint (h rr) - sint (y sr) - uint (h sr))"
proof -
  from event_loop_returns [OF assms]
  obtain l cs rest where
    "event_loop evs init_locals [XCreateFontCursor, XGrabPointer, XCreateGC] = Some (l, cs, rest)"
    by blast
  then show ?thesis
    by (simp add: select_region_def Let_def sint_offset)
qed

theorem select_region_derived_offsets_witness:
  "list_ex is_release [ButtonPress 30 40, MotionNotify 10 100, ButtonRelease 10 100]
   \<and> (\<exists>sel sr. select_region GrabSuccess [ButtonPress 30 40, MotionNotify 10 100, ButtonRelease 10 100]
          (Some example_root) example_region = Some sel
        \<and> status sel = EXIT_SUCCESS \<and> region_out sel = Some sr
        \<and> X sr = w example_root - x sr - w sr \<and> Y sr = h example_root - y sr - h sr)"
proof -
  have 1: "list_ex is_release [ButtonPress 30 40, MotionNotify 10 100, ButtonRelease 10 100]"
    by simp
  from select_region_derived_offsets [OF 1, of example_root example_region] 1 show ?thesis
    by blast
qed



subsection \<open>Rounding\<close>

text \<open>
  C3. Rounding of a signed field does not divide as a signed number. In
  \<open>round_and_printi\<close> the \<open>int\<close> value meets the \<open>unsigned int\<close> divisor, so it is
  converted to \<open>unsigned int\<close> before the division: with \<open>x = -47\<close> the directive
  \<open>%[10]x\<close> prints \<open>-56\<close>, where truncating signed division would give \<open>-40\<close>.
\<close>

theorem signed_rounding_divides_unsigned:
  "print_region_attr ''%[10]x'' (example_region\<lparr>x := - 47\<rparr>) = Finished ''-56''
   \<and> spec_round (- 47) 10 = - 40"
proof 
  show "print_region_attr ''%[10]x'' (example_region\<lparr>x := - 47\<rparr>) = Finished ''-56''"
    by code_simp
  show "spec_round (- 47) 10 = - 40"
    by (simp add: spec_round_def)
qed

subsection \<open>Errors of the renderer\<close>

text \<open>
  C4, as stated, fails: the format \<open>a%[5w\<close> writes \<open>a\<close> to standard output and then
  stops with the error, so an aborted run has written something.
\<close>

theorem partial_output_counterexample:
  "\<not> all_or_nothing (print_region_attr ''a%[5w'' example_region)"
  by code_simp

text \<open>
  C4, amended. Output is written as the scan proceeds and is not taken back: when the
  text before a directive renders completely to \<open>out\<close> and the rounding clause of the
  directive is malformed, the run stops with that error and standard output holds
  exactly \<open>out\<close>; nothing of the directive or of the text after it is written. In
  particular \<open>%[5w\<close> writes nothing.
\<close>

theorem syntax_error_keeps_earlier_output:
  assumes "NUL \<notin> set pre" and "print_region_attr pre region = Finished out"
    and "read_rounding (c_str rest) = Inl e"
  shows "print_region_attr (pre @ CHR ''%'' # rest) region = Aborted out e
         \<and> print_region_attr ''%[5w'' region = Aborted [] (Unexpected_Character (CHR ''w''))"
proof
  from assms(1,2)
  have "print_loop region (pre @ CHR ''%'' # c_str rest) [] = print_loop region (CHR ''%'' # c_str rest) out"
    by (simp add: print_region_attr_def c_str_def print_loop_append)
  also have "\<dots> = Aborted out e"
    using assms(3) by (rule print_loop_directive_error)
  finally show "print_region_attr (pre @ CHR ''%'' # rest) region = Aborted out e"
    by (simp add: print_region_attr_def c_str_def)
  have "read_rounding (CHR ''['' # ''5'' @ CHR ''w'' # [NUL]) = Inl (Unexpected_Character (CHR ''w''))"
    by (rule read_rounding_bad) (simp_all add: is_digit_def)
  then show "print_region_attr ''%[5w'' region = Aborted [] (Unexpected_Character (CHR ''w''))"
    by (simp add: print_region_attr_def c_str_def print_loop_directive_error)
qed

theorem syntax_error_keeps_earlier_output_witness:
  "NUL \<notin> set ''%wx'' \<and> print_region_attr ''%wx'' example_region = Finished ''100x''
   \<and> read_rounding (c_str ''[5w'') = Inl (Unexpected_Character (CHR ''w''))
   \<and> print_region_attr ''%wx%[5w'' example_region = Aborted ''100x'' (Unexpected_Character (CHR ''w''))"
proof -
  have 1: "NUL \<notin> set ''%wx''" by simp
  have 2: "print_region_attr ''%wx'' example_region = Finished ''100x''" by code_simp
  have 3: "read_rounding (c_str ''[5w'') = Inl (Unexpected_Character (CHR ''w''))" by code_simp
  from syntax_error_keeps_earlier_output [OF 1 2 3] 1 2 3 show ?thesis by simp
qed

subsection \<open>The feedback rectangle\<close>

text \<open>
  C5. A second button press during a drag leaves an outline on the display. The press
  handler resets the tracked rectangle without redrawing the one on screen: after a
  press at \<open>(10, 10)\<close>, a motion to \<open>(20, 20)\<close>, a press at \<open>(50, 50)\<close> and a release,
  the rectangle \<open>(10, 10, 10, 10)\<close> has been drawn exactly once.
\<close>

theorem second_press_leaves_outline:
  "map_option (\<lambda>sel. (drawn_rectangles (calls sel), draw_count (10, 10, 10, 10) (calls sel)))
     (select_region GrabSuccess
        [ButtonPress 10 10, MotionNotify 20 20, ButtonPress 50 50, ButtonRelease 50 50]
        (Some example_root) example_region)
   = Some ([(10, 10, 0, 0), (10, 10, 10, 10), (50, 50, 0, 0)], 1)"
  by code_simp

subsection \<open>Malformed rounding clauses\<close>

text \<open>
  C6, as stated, fails: a clause that runs to the end of the format string without a
  closing bracket does not always stop with \<open>No matching ]\<close>. In \<open>%[5w\<close> no bracket
  closes the clause, and the run stops with \<open>Unexpected character w\<close>.
\<close>

theorem unterminated_clause_counterexample:
  "unterminated ''5w''
   \<and> print_region_attr ''%[5w'' example_region = Aborted [] (Unexpected_Character (CHR ''w''))
   \<and> print_region_attr ''%[5w'' example_region \<noteq> Aborted [] (No_Matching (CHR '']''))"
proof -
  have 1: "unterminated ''5w''" by (simp add: unterminated_def)
  have 2: "print_region_attr ''%[5w'' example_region = Aborted [] (Unexpected_Character (CHR ''w''))"
    by code_simp
  from 1 2 show ?thesis by simp
qed

text \<open>
  C6, amended. The first character after the opening bracket that is not a digit
  decides. Wherever the scan stands at a directive with a rounding clause, and whatever
  has been written so far: when only digits follow the bracket up to the terminating
  NUL, the run stops with the error \<open>No matching ]\<close>; when the digits are followed by a
  character that is neither a digit nor the closing bracket, the run stops with the
  error \<open>Unexpected character\<close> naming that character, whether or not a closing bracket
  comes later. So a clause with no closing bracket stops with \<open>No matching ]\<close> exactly
  when it holds digits only, and otherwise names its first character that is not a
  digit. Nothing more is written in either case, and the message on standard error
  names the bracket or the character.
\<close>

theorem malformed_rounding_clause_is_fatal:
  assumes "list_all is_digit ds"
  shows "print_loop region (''%['' @ ds @ NUL # rest) out = Aborted out (No_Matching (CHR '']''))
       \<and> (\<not> is_digit c \<and> c \<noteq> CHR '']'' \<and> c \<noteq> NUL \<longrightarrow>
            print_loop region (''%['' @ ds @ c # rest) out = Aborted out (Unexpected_Character c))
       \<and> print_region_attr (''%['' @ ds) region = Aborted [] (No_Matching (CHR '']''))
       \<and> (unterminated content \<and> NUL \<notin> set content \<longrightarrow>
            print_region_attr (''%['' @ content) region =
              Aborted [] (if list_all is_digit content then No_Matching (CHR '']'')
                          else Unexpected_Character (hd (dropWhile is_digit content))))
       \<and> stderr_text (No_Matching (CHR '']'')) = ''xrectsel: No matching ] found''
       \<and> stderr_text (Unexpected_Character c) = ''xrectsel: Unexpected character '' @ [c] @ [CHR 0x0A]"
proof -
  have "print_region_attr (''%['' @ content) region =
          Aborted [] (if list_all is_digit content then No_Matching (CHR '']'')
                      else Unexpected_Character (hd (dropWhile is_digit content)))"
    if "unterminated content" "NUL \<notin> set content"
    using unterminated_clause_error [OF that, of region "[]"]
    by (simp add: print_region_attr_def c_str_def)
  with assms show ?thesis
    by (simp add: print_loop_directive_error read_rounding_unterminated read_rounding_bad
        print_region_attr_def c_str_def)
qed

theorem malformed_rounding_clause_is_fatal_witness:
  "list_all is_digit ''12''
   \<and> print_region_attr ''ab%[12'' example_region = Aborted ''ab'' (No_Matching (CHR '']''))
   \<and> print_loop example_region (c_str ''%[12q]w'') ''ab'' = Aborted ''ab'' (Unexpected_Character (CHR ''q''))
   \<and> unterminated ''7q8'' \<and> NUL \<notin> set ''7q8''
   \<and> print_region_attr ''%[7q8'' example_region = Aborted [] (Unexpected_Character (CHR ''q''))"
proof -
  have d: "list_all is_digit ''12''" by (simp add: is_digit_def)
  have q: "\<not> is_digit (CHR ''q'')" by (simp add: is_digit_def)
  have u: "unterminated ''7q8''" "NUL \<notin> set ''7q8''" by (simp_all add: unterminated_def)
  from malformed_rounding_clause_is_fatal [OF d, of example_region "[]" "''ab''" "CHR ''q''"]
  have 1: "print_loop example_region (c_str ''%[12'') ''ab'' = Aborted ''ab'' (No_Matching (CHR '']''))"
    by (simp add: c_str_def)
  have "print_region_attr ''ab%[12'' example_region = print_loop example_region (c_str ''%[12'') ''ab''"
    by (simp add: print_region_attr_def c_str_def print_loop_literal)
  with 1 have 2: "print_region_attr ''ab%[12'' example_region = Aborted ''ab'' (No_Matching (CHR '']''))"
    by simp
  from malformed_rounding_clause_is_fatal [OF d, of example_region "c_str '']w''" "''ab''" "CHR ''q''"] q
  have 3: "print_loop example_region (c_str ''%[12q]w'') ''ab'' = Aborted ''ab'' (Unexpected_Character (CHR ''q''))"
    by (simp add: c_str_def)
  from malformed_rounding_clause_is_fatal [OF d, where content = "''7q8''" and region = example_region] u
  have 4: "print_region_attr ''%[7q8'' example_region = Aborted [] (Unexpected_Character (CHR ''q''))"
    by (simp add: is_digit_def)
  from d 2 3 u 4 show ?thesis by simp
qed

subsection \<open>Unknown selectors\<close>

text \<open>
  C7. A directive whose selector is none of \<open>%\<close>, \<open>x\<close>, \<open>y\<close>, \<open>X\<close>, \<open>Y\<close>, \<open>w\<close>,
  \<open>h\<close>, \<open>b\<close>, \<open>d\<close> writes nothing and is no error: the percent sign, the rounding
  clause if there is one, and the selector are consumed, and the scan goes on with the
  rest of the buffer and the output unchanged. Without a rounding clause the selector
  must not be the opening bracket, which would start a clause. The equations also cover
  the terminating NUL in the place of the selector; the rest of the buffer is then
  empty, which is the case of C9.
\<close>

theorem unknown_selector_prints_nothing:
  assumes "sel \<notin> set ''%xyXYwhbd''" and "list_all is_digit ds"
  shows "(sel \<noteq> CHR ''['' \<longrightarrow>
            print_loop region (CHR ''%'' # sel # rest) out = print_loop region rest out)
       \<and> print_loop region (''%['' @ ds @ CHR '']'' # sel # rest) out = print_loop region rest out"
  using assms
  by (simp add: print_loop_directive read_rounding_plain read_rounding_clause print_attr_other)

theorem unknown_selector_prints_nothing_witness:
  "CHR ''q'' \<notin> set ''%xyXYwhbd'' \<and> list_all is_digit ''25''
   \<and> print_loop example_region (c_str ''%qz'') ''a'' = Finished ''az''
   \<and> print_loop example_region (c_str ''%[25]qz'') ''a'' = Finished ''az''"
proof -
  have 1: "CHR ''q'' \<notin> set ''%xyXYwhbd''" by simp
  have 2: "list_all is_digit ''25''" by (simp add: is_digit_def)
  have 3: "print_loop example_region (c_str ''z'') ''a'' = Finished ''az''"
    by (simp add: c_str_def print_loop_literal print_loop_NUL)
  from unknown_selector_prints_nothing [OF 1 2, of example_region "c_str ''z''" "''a''"] 1 2 3
  show ?thesis by (simp add: c_str_def)
qed

subsection \<open>Failure of the pointer grab\<close>

text \<open>
  C8. When \<open>XGrabPointer\<close> does not answer \<open>GrabSuccess\<close>, \<open>select_region\<close> returns
  \<open>EXIT_FAILURE\<close> at once, whatever events are pending and whatever the geometry query
  would answer: no event is read, nothing is drawn, nothing is stored through
  \<open>region\<close>, and no graphics context is created. But the call does leave state behind:
  the cursor created for the grab request is not freed on this return, while every
  return after a successful grab comes after \<open>XFreeCursor\<close>.
\<close>

theorem grab_failure_leaves_cursor:
  assumes "grab_status \<noteq> GrabSuccess"
  shows "\<exists>sel. select_region grab_status evs geometry sr0 = Some sel
           \<and> status sel = EXIT_FAILURE
           \<and> region_out sel = None
           \<and> unread sel = evs
           \<and> XNextEvent \<notin> set (calls sel)
           \<and> XCreateGC \<notin> set (calls sel)
           \<and> drawn_rectangles (calls sel) = []
           \<and> calls sel = [XCreateFontCursor, XGrabPointer]
           \<and> cursor_left_behind (calls sel)
           \<and> stderr sel = ''xrectsel: failed to grab pointer'' @ [CHR 0x0A]"
  using assms by (simp add: select_region_def cursor_left_behind_def)

theorem grab_failure_leaves_cursor_witness:
  "(1::nat) \<noteq> GrabSuccess
   \<and> map_option (\<lambda>sel. (status sel, region_out sel, unread sel, calls sel, cursor_left_behind (calls sel)))
        (select_region 1 [ButtonPress 30 40, ButtonRelease 30 40] (Some example_root) example_region)
      = Some (EXIT_FAILURE, None, [ButtonPress 30 40, ButtonRelease 30 40],
              [XCreateFontCursor, XGrabPointer], True)"
proof -
  have 1: "(1::nat) \<noteq> GrabSuccess" by (simp add: GrabSuccess_def)
  from grab_failure_leaves_cursor [OF 1, of "[ButtonPress 30 40, ButtonRelease 30 40]" "Some example_root" example_region] 1
  show ?thesis by auto
qed

subsection \<open>Reading past the end of the format string\<close>

text \<open>
  C9. When the text before it renders completely, a percent sign that is the last
  character of the format string, alone or followed by a complete rounding clause that
  ends the string, takes the terminating NUL as its selector; the increment of the
  \<open>for\<close> loop then moves the pointer past the NUL and the loop condition reads outside
  the buffer.
\<close>

theorem trailing_percent_reads_past_end:
  assumes "NUL \<notin> set pre" and "print_region_attr pre region = Finished out"
    and "list_all is_digit ds"
  shows "print_region_attr (pre @ ''%'') region = Aborted out Read_Past_End
       \<and> print_region_attr (pre @ ''%['' @ ds @ '']'') region = Aborted out Read_Past_End"
proof -
  have a: "print_loop region (pre @ t) [] = print_loop region t out" for t
    using assms(1,2) by (simp add: print_region_attr_def c_str_def print_loop_append)
  have "read_rounding [NUL] = Inr (0, [NUL])"
    by (simp add: read_rounding_plain)
  then have 1: "print_loop region (CHR ''%'' # [NUL]) out = Aborted out Read_Past_End"
    by (simp add: print_loop_directive print_loop_Nil print_attr_other)
  have "read_rounding (CHR ''['' # ds @ CHR '']'' # [NUL]) = Inr (foldl add_digit 0 ds, [NUL])"
    using assms(3) by (rule read_rounding_clause)
  then have 2: "print_loop region (CHR ''%'' # CHR ''['' # ds @ CHR '']'' # [NUL]) out = Aborted out Read_Past_End"
    by (simp add: print_loop_directive print_loop_Nil print_attr_other)
  from a [of "CHR ''%'' # [NUL]"] a [of "CHR ''%'' # CHR ''['' # ds @ CHR '']'' # [NUL]"] 1 2
  show ?thesis by (simp add: print_region_attr_def c_str_def)
qed

theorem trailing_percent_reads_past_end_witness:
  "NUL \<notin> set ''w=%w'' \<and> print_region_attr ''w=%w'' example_region = Finished ''w=100''
   \<and> list_all is_digit ''5''
   \<and> print_region_attr ''w=%w%'' example_region = Aborted ''w=100'' Read_Past_End
   \<and> print_region_attr ''w=%w%[5]'' example_region = Aborted ''w=100'' Read_Past_End"
proof -
  have 1: "NUL \<notin> set ''w=%w''" by simp
  have 2: "print_region_attr ''w=%w'' example_region = Finished ''w=100''" by code_simp
  have 3: "list_all is_digit ''5''" by (simp add: is_digit_def)
  from trailing_percent_reads_past_end [OF 1 2 3] 1 2 3 show ?thesis by simp
qed

subsection \<open>The empty rounding clause\<close>

text \<open>
  C10. An empty rounding clause is accepted: \<open>read_uint_until\<close> returns 0 on \<open>[]\<close>,
  and a directive \<open>%[]f\<close> is rendered exactly as \<open>%f\<close>, from any position of the scan
  and as a whole format string, for every selector \<open>f\<close> other than the opening bracket.
\<close>

theorem empty_rounding_clause_is_no_rounding:
  assumes "f \<noteq> CHR ''[''"
  shows "read_uint_until (''[]'' @ f # rest) (CHR '']'') = Inr (0, CHR '']'' # f # rest)
       \<and> print_loop region (''%[]'' @ f # rest) out = print_loop region (CHR ''%'' # f # rest) out
       \<and> print_region_attr (''%[]'' @ f # fmt) region = print_region_attr (CHR ''%'' # f # fmt) region"
proof -
  have 1: "read_uint_until (''[]'' @ f # t) (CHR '']'') = Inr (0, CHR '']'' # f # t)" for t
    using read_uint_until_closed [of "[]"] by simp
  have 2: "read_rounding (CHR ''['' # CHR '']'' # f # t) = Inr (0, f # t)" for t
    using read_rounding_clause [of "[]"] by simp
  have 3: "read_rounding (f # t) = Inr (0, f # t)" for t
    using assms by (rule read_rounding_plain)
  have 4: "print_loop region (''%[]'' @ f # t) out' = print_loop region (CHR ''%'' # f # t) out'" for t out'
    by (simp add: print_loop_directive [OF 2] print_loop_directive [OF 3])
  from 1 [of rest] 4 [of rest out] 4 [of "c_str fmt" "[]"] show ?thesis
    by (simp add: print_region_attr_def c_str_def)
qed

theorem empty_rounding_clause_is_no_rounding_witness:
  "CHR ''w'' \<noteq> CHR ''[''
   \<and> print_region_attr ''%[]w'' example_region = Finished ''100''
   \<and> print_region_attr ''%w'' example_region = Finished ''100''"
proof -
  have 1: "CHR ''w'' \<noteq> CHR ''[''" by simp
  have 2: "print_region_attr ''%w'' example_region = Finished ''100''" by code_simp
  from empty_rounding_clause_is_no_rounding [OF 1, of "[]" example_region "[]" "[]"] 1 2
  show ?thesis by simp
qed

end
